theory Spec2Isabelle
  imports Main "HOL-Library.Stream"
begin

section \<open>The random source\<close>

text \<open>
  \<^verbatim>\<open>rumba.py\<close> draws from Python's global \<^verbatim>\<open>random\<close> module. The generator's state is
  made explicit as a stream of raw natural numbers that is threaded through every call:
  each library call consumes the head of the stream. The three library functions used by
  the program follow CPython's \<^verbatim>\<open>random.py\<close>: \<^verbatim>\<open>randint(a, b)\<close> is
  \<^verbatim>\<open>randrange(a, b + 1)\<close>, which raises \<^verbatim>\<open>ValueError\<close> on an empty range and otherwise
  returns \<^verbatim>\<open>a + _randbelow(width)\<close>; \<^verbatim>\<open>choice(seq)\<close> raises \<^verbatim>\<open>IndexError\<close> on an
  empty sequence and otherwise returns \<^verbatim>\<open>seq[_randbelow(len(seq))]\<close>. The raw number is
  reduced into \<open>[0, n)\<close>, so every value of the range can be drawn and nothing else.
\<close>

datatype error = ValueError | IndexError

type_synonym rng = "nat stream"

type_synonym pos = "int \<times> int"

definition randbelow :: "nat \<Rightarrow> rng \<Rightarrow> nat \<times> rng" where
  "randbelow n g = (shd g mod n, stl g)"

definition randrange :: "int \<Rightarrow> int \<Rightarrow> rng \<Rightarrow> error + (int \<times> rng)" where
  "randrange start stop g =
     (let width = stop - start
      in if 0 < width
         then (case randbelow (nat width) g of (r, g') \<Rightarrow> Inr (start + int r, g'))
         else Inl ValueError)"

definition randint :: "int \<Rightarrow> int \<Rightarrow> rng \<Rightarrow> error + (int \<times> rng)" where
  "randint a b g = randrange a (b + 1) g"

definition choice :: "'a list \<Rightarrow> rng \<Rightarrow> error + ('a \<times> rng)" where
  "choice seq g =
     (if length seq = 0 then Inl IndexError
      else (case randbelow (length seq) g of (i, g') \<Rightarrow> Inr (seq ! i, g')))"

section \<open>Python list operations used by the program\<close>

text \<open>\<^verbatim>\<open>xs.remove(x)\<close> deletes the first occurrence and raises \<^verbatim>\<open>ValueError\<close> if there is none.\<close>

definition list_remove :: "'a \<Rightarrow> 'a list \<Rightarrow> error + 'a list" where
  "list_remove x xs = (if x \<in> set xs then Inr (remove1 x xs) else Inl ValueError)"

section \<open>Casa: the house and its dirt spots\<close>

record casa =
  casa_grid_size :: pos
  casa_dirt_positions :: "pos list"

text \<open>
  The body of \<^verbatim>\<open>for _ in range(num_dirt_spots)\<close> in \<^verbatim>\<open>_generate_dirt_spots\<close>: the first
  argument counts the iterations still to run, \<open>dirt_spots\<close> is the list built so far.
\<close>

fun generate_dirt_spots_loop :: "nat \<Rightarrow> pos \<Rightarrow> pos list \<Rightarrow> rng \<Rightarrow> error + (pos list \<times> rng)" where
  "generate_dirt_spots_loop 0 grid dirt_spots g = Inr (dirt_spots, g)"
| "generate_dirt_spots_loop (Suc k) grid dirt_spots g =
     (case randint 0 (fst grid - 1) g of
        Inl e \<Rightarrow> Inl e
      | Inr (r, g1) \<Rightarrow>
          (case randint 0 (snd grid - 1) g1 of
             Inl e \<Rightarrow> Inl e
           | Inr (c, g2) \<Rightarrow>
               (let spot = (r, c)
                in if spot \<notin> set dirt_spots
                   then generate_dirt_spots_loop k grid (dirt_spots @ [spot]) g2
                   else generate_dirt_spots_loop k grid dirt_spots g2)))"

text \<open>\<^verbatim>\<open>range(n)\<close> is empty for \<open>n \<le> 0\<close>, hence \<open>nat n\<close> iterations.\<close>

definition generate_dirt_spots :: "pos \<Rightarrow> int \<Rightarrow> rng \<Rightarrow> error + (pos list \<times> rng)" where
  "generate_dirt_spots grid num_dirt_spots g =
     generate_dirt_spots_loop (nat num_dirt_spots) grid [] g"

definition Casa_init :: "pos \<Rightarrow> int \<Rightarrow> rng \<Rightarrow> error + (casa \<times> rng)" where
  "Casa_init grid num_dirt_spots g =
     (case generate_dirt_spots grid num_dirt_spots g of
        Inl e \<Rightarrow> Inl e
      | Inr (spots, g') \<Rightarrow>
          Inr (\<lparr>casa_grid_size = grid, casa_dirt_positions = spots\<rparr>, g'))"

definition get_dirt_positions :: "casa \<Rightarrow> pos list" where
  "get_dirt_positions c = casa_dirt_positions c"

section \<open>Rumba: the cleaning robot\<close>

record rumba =
  grid_size :: pos
  dirt_positions :: "pos list"
  position :: pos
  cleaned_spots :: "pos list"

text \<open>
  The argument \<open>dirt\<close> is \<open>None\<close> for Python's default \<^verbatim>\<open>None\<close>;
  \<^verbatim>\<open>dirt_positions if dirt_positions else []\<close> tests the truthiness of the list.
\<close>

definition Rumba_init :: "pos \<Rightarrow> pos list option \<Rightarrow> rng \<Rightarrow> error + (rumba \<times> rng)" where
  "Rumba_init grid dirt g =
     (let ds = (case dirt of None \<Rightarrow> [] | Some xs \<Rightarrow> if xs \<noteq> [] then xs else [])
      in case randint 0 (fst grid - 1) g of
           Inl e \<Rightarrow> Inl e
         | Inr (r, g1) \<Rightarrow>
             (case randint 0 (snd grid - 1) g1 of
                Inl e \<Rightarrow> Inl e
              | Inr (c, g2) \<Rightarrow>
                  Inr (\<lparr>grid_size = grid, dirt_positions = ds,
                        position = (r, c), cleaned_spots = []\<rparr>, g2)))"

text \<open>Up, down, left, right.\<close>

definition directions :: "pos list" where
  "directions = [(-1, 0), (1, 0), (0, -1), (0, 1)]"

definition move :: "rumba \<Rightarrow> rng \<Rightarrow> error + (rumba \<times> rng)" where
  "move a g =
     (case choice directions g of
        Inl e \<Rightarrow> Inl e
      | Inr (move_dir, g') \<Rightarrow>
          (let new_position = (fst (position a) + fst move_dir,
                               snd (position a) + snd move_dir);
               new_position = (max 0 (min (fst (grid_size a) - 1) (fst new_position)),
                               max 0 (min (snd (grid_size a) - 1) (snd new_position)));
               a1 = a\<lparr>position := new_position\<rparr>
           in if position a1 \<in> set (dirt_positions a1)
              then (case list_remove (position a1) (dirt_positions a1) of
                      Inl e \<Rightarrow> Inl e
                    | Inr ds \<Rightarrow>
                        Inr (a1\<lparr>dirt_positions := ds,
                                 cleaned_spots := cleaned_spots a1 @ [position a1]\<rparr>, g'))
              else Inr (a1, g')))"

definition is_clean :: "rumba \<Rightarrow> bool" where
  "is_clean a = (length (dirt_positions a) = 0)"

section \<open>The main simulation loop\<close>

text \<open>
  The \<^verbatim>\<open>while\<close> loop of the main block. \<^verbatim>\<open>get_state\<close> builds a dictionary from the
  robot's fields and \<^verbatim>\<open>plot_grid\<close> only reads that dictionary and draws it; neither
  changes the robot, so they do not appear here (\<^verbatim>\<open>get_state\<close> is modelled further
  down, on the store). The loop stops because \<open>max_steps - steps\<close> decreases.
\<close>

function run_loop :: "rumba \<Rightarrow> int \<Rightarrow> int \<Rightarrow> rng \<Rightarrow> error + (rumba \<times> int \<times> rng)" where
  "run_loop a steps max_steps g =
     (if \<not> is_clean a \<and> steps < max_steps
      then (case move a g of
              Inl e \<Rightarrow> Inl e
            | Inr (a', g') \<Rightarrow> run_loop a' (steps + 1) max_steps g')
      else Inr (a, steps, g))"
  by pat_completeness auto
termination
  by (relation "measure (\<lambda>(a, steps, max_steps, g). nat (max_steps - steps))") auto

declare run_loop.simps [simp del]

text \<open>The two messages the program can print, with the number each one shows.\<close>

datatype report = All_spots_cleaned int | Could_not_clean int

text \<open>
  The main block with its three constants (\<open>(10, 10)\<close>, \<open>8\<close> and \<open>100\<close> in the source)
  taken as parameters.
\<close>

definition run :: "pos \<Rightarrow> int \<Rightarrow> int \<Rightarrow> rng \<Rightarrow> error + report" where
  "run grid num_dirt_spots max_steps g =
     (case Casa_init grid num_dirt_spots g of
        Inl e \<Rightarrow> Inl e
      | Inr (house, g1) \<Rightarrow>
          (case Rumba_init grid (Some (get_dirt_positions house)) g1 of
             Inl e \<Rightarrow> Inl e
           | Inr (a, g2) \<Rightarrow>
               (case run_loop a 0 max_steps g2 of
                  Inl e \<Rightarrow> Inl e
                | Inr (a', steps, g3) \<Rightarrow>
                    Inr (if is_clean a' then All_spots_cleaned steps
                         else Could_not_clean max_steps))))"

definition main :: "rng \<Rightarrow> error + report" where
  "main g = run (10, 10) 8 100 g"

section \<open>The same program with its lists as shared objects\<close>

text \<open>
  Python lists are mutable objects held by reference: \<^verbatim>\<open>Rumba.__init__\<close> stores the list
  it is given, and \<^verbatim>\<open>get_state\<close> puts the robot's two lists into the dictionary it
  returns. To say who shares a list with whom, the lists live in a store of cells
  addressed by references, and an object holds references. Tuples and integers are
  immutable and stay values. The operations below are the ones above, reading and writing
  the lists through the store; on the lists they perform the same list operations.
\<close>

type_synonym ref = nat

record heap =
  cells :: "ref \<Rightarrow> pos list"
  fresh :: ref

text \<open>The store before any list is created.\<close>

definition empty_heap :: heap where
  "empty_heap = \<lparr>cells = (\<lambda>_. []), fresh = 0\<rparr>"

text \<open>A list display or a list built locally and then returned: a new object.\<close>

definition new_list :: "pos list \<Rightarrow> heap \<Rightarrow> ref \<times> heap" where
  "new_list xs h = (fresh h, h\<lparr>cells := (cells h)(fresh h := xs), fresh := Suc (fresh h)\<rparr>)"

text \<open>\<^verbatim>\<open>xs.append(x)\<close> and \<^verbatim>\<open>xs.remove(x)\<close> on the list object at \<open>r\<close>.\<close>

definition append_at :: "ref \<Rightarrow> pos \<Rightarrow> heap \<Rightarrow> heap" where
  "append_at r x h = h\<lparr>cells := (cells h)(r := cells h r @ [x])\<rparr>"

definition remove_at :: "ref \<Rightarrow> pos \<Rightarrow> heap \<Rightarrow> error + heap" where
  "remove_at r x h =
     (case list_remove x (cells h r) of
        Inl e \<Rightarrow> Inl e
      | Inr xs \<Rightarrow> Inr (h\<lparr>cells := (cells h)(r := xs)\<rparr>))"

record casa_obj =
  co_grid_size :: pos
  co_dirt_positions :: ref

record rumba_obj =
  ro_grid_size :: pos
  ro_dirt_positions :: ref
  ro_position :: pos
  ro_cleaned_spots :: ref

text \<open>The dictionary returned by \<^verbatim>\<open>get_state\<close>, with its three keys.\<close>

record state_dict =
  sd_position :: pos
  sd_dirt_positions :: ref
  sd_cleaned_spots :: ref

text \<open>
  \<^verbatim>\<open>_generate_dirt_spots\<close> builds its list locally, so it becomes an object of the store
  when it is returned and assigned to \<^verbatim>\<open>self.dirt_positions\<close>.
\<close>

definition Casa_init_obj :: "pos \<Rightarrow> int \<Rightarrow> rng \<Rightarrow> heap \<Rightarrow> error + (casa_obj \<times> rng \<times> heap)" where
  "Casa_init_obj grid num_dirt_spots g h =
     (case generate_dirt_spots grid num_dirt_spots g of
        Inl e \<Rightarrow> Inl e
      | Inr (spots, g') \<Rightarrow>
          (case new_list spots h of
             (r, h') \<Rightarrow> Inr (\<lparr>co_grid_size = grid, co_dirt_positions = r\<rparr>, g', h')))"

text \<open>\<^verbatim>\<open>get_dirt_positions\<close> returns the list itself, not a copy.\<close>

definition get_dirt_positions_obj :: "casa_obj \<Rightarrow> ref" where
  "get_dirt_positions_obj c = co_dirt_positions c"

text \<open>
  \<^verbatim>\<open>dirt_positions if dirt_positions else []\<close> keeps the list handed in when it is
  non-empty, and creates a new empty list otherwise; \<^verbatim>\<open>self.cleaned_spots = []\<close> creates
  a new list after the position has been drawn.
\<close>

definition Rumba_init_obj ::
    "pos \<Rightarrow> ref option \<Rightarrow> rng \<Rightarrow> heap \<Rightarrow> error + (rumba_obj \<times> rng \<times> heap)" where
  "Rumba_init_obj grid dirt g h =
     (case (case dirt of
              None \<Rightarrow> new_list [] h
            | Some r \<Rightarrow> if cells h r \<noteq> [] then (r, h) else new_list [] h) of
        (d, h1) \<Rightarrow>
          (case randint 0 (fst grid - 1) g of
             Inl e \<Rightarrow> Inl e
           | Inr (r, g1) \<Rightarrow>
               (case randint 0 (snd grid - 1) g1 of
                  Inl e \<Rightarrow> Inl e
                | Inr (c, g2) \<Rightarrow>
                    (case new_list [] h1 of
                       (cl, h2) \<Rightarrow>
                         Inr (\<lparr>ro_grid_size = grid, ro_dirt_positions = d,
                               ro_position = (r, c), ro_cleaned_spots = cl\<rparr>, g2, h2)))))"

definition move_obj :: "rumba_obj \<Rightarrow> rng \<Rightarrow> heap \<Rightarrow> error + (rumba_obj \<times> rng \<times> heap)" where
  "move_obj a g h =
     (case choice directions g of
        Inl e \<Rightarrow> Inl e
      | Inr (move_dir, g') \<Rightarrow>
          (let new_position = (fst (ro_position a) + fst move_dir,
                               snd (ro_position a) + snd move_dir);
               new_position = (max 0 (min (fst (ro_grid_size a) - 1) (fst new_position)),
                               max 0 (min (snd (ro_grid_size a) - 1) (snd new_position)));
               a1 = a\<lparr>ro_position := new_position\<rparr>
           in if ro_position a1 \<in> set (cells h (ro_dirt_positions a1))
              then (case remove_at (ro_dirt_positions a1) (ro_position a1) h of
                      Inl e \<Rightarrow> Inl e
                    | Inr h1 \<Rightarrow>
                        Inr (a1, g', append_at (ro_cleaned_spots a1) (ro_position a1) h1))
              else Inr (a1, g', h)))"

definition is_clean_obj :: "rumba_obj \<Rightarrow> heap \<Rightarrow> bool" where
  "is_clean_obj a h = (length (cells h (ro_dirt_positions a)) = 0)"

definition get_state_obj :: "rumba_obj \<Rightarrow> state_dict" where
  "get_state_obj a =
     \<lparr>sd_position = ro_position a,
      sd_dirt_positions = ro_dirt_positions a,
      sd_cleaned_spots = ro_cleaned_spots a\<rparr>"

text \<open>The robot as a value: its lists read from the store.\<close>

definition rumba_of :: "heap \<Rightarrow> rumba_obj \<Rightarrow> rumba" where
  "rumba_of h a =
     \<lparr>grid_size = ro_grid_size a,
      dirt_positions = cells h (ro_dirt_positions a),
      position = ro_position a,
      cleaned_spots = cells h (ro_cleaned_spots a)\<rparr>"

section \<open>Notions used to state the properties\<close>

text \<open>A position lies in the grid.\<close>

definition in_grid :: "pos \<Rightarrow> pos \<Rightarrow> bool" where
  "in_grid grid p = (0 \<le> fst p \<and> fst p < fst grid \<and> 0 \<le> snd p \<and> snd p < snd grid)"

text \<open>\<open>n\<close> calls of \<^verbatim>\<open>move\<close> in a row.\<close>

fun moves :: "nat \<Rightarrow> rumba \<Rightarrow> rng \<Rightarrow> error + (rumba \<times> rng)" where
  "moves 0 a g = Inr (a, g)"
| "moves (Suc n) a g =
     (case move a g of Inl e \<Rightarrow> Inl e | Inr (a', g') \<Rightarrow> moves n a' g')"

text \<open>
  The position \<^verbatim>\<open>move\<close> commits: the candidate cell in the drawn direction, with each
  coordinate brought back between \<open>0\<close> and the last index of its axis.
\<close>

definition target :: "rumba \<Rightarrow> rng \<Rightarrow> pos" where
  "target a g =
     (let d = directions ! (shd g mod 4)
      in (max 0 (min (fst (grid_size a) - 1) (fst (position a) + fst d)),
          max 0 (min (snd (grid_size a) - 1) (snd (position a) + snd d))))"

text \<open>
  The candidate position of a move: the cell next to the current one in the drawn
  direction, before it is brought back into the grid.
\<close>

definition candidate :: "rumba \<Rightarrow> rng \<Rightarrow> pos" where
  "candidate a g =
     (let d = directions ! (shd g mod 4)
      in (fst (position a) + fst d, snd (position a) + snd d))"

text \<open>
  Clamping as the specification words it: a coordinate \<open>x\<close> on an axis of dimension \<open>d\<close>
  is replaced by the nearest value of \<open>[0, d - 1]\<close>.
\<close>

definition clamp_to :: "int \<Rightarrow> int \<Rightarrow> int" where
  "clamp_to d x = (if x < 0 then 0 else if d - 1 < x then d - 1 else x)"

section \<open>Basic facts\<close>

lemma randint_0:
  "randint 0 b g =
     (if 0 \<le> b then Inr (int (shd g mod nat (b + 1)), stl g) else Inl ValueError)"
  by (simp add: randint_def randrange_def randbelow_def)

lemma randint_0_bounds:
  assumes "randint 0 b g = Inr (x, g')"
  shows "0 \<le> x \<and> x \<le> b \<and> g' = stl g"
proof -
  from assms have b: "0 \<le> b" and x: "x = int (shd g mod nat (b + 1))" and g: "g' = stl g"
    by (auto simp: randint_0 split: if_splits)
  from b have "shd g mod nat (b + 1) < nat (b + 1)" by simp
  with b x have "x < b + 1" by linarith
  with x g show ?thesis by simp
qed

lemma choice_directions:
  "choice directions g = Inr (directions ! (shd g mod 4), stl g)"
  by (simp add: choice_def randbelow_def directions_def)

lemma direction_cases:
  "directions ! (n mod 4) \<in> {(-1, 0), (1, 0), (0, -1), (0, 1)}"
proof -
  have "n mod 4 < 4" by simp
  then consider "n mod 4 = 0" | "n mod 4 = 1" | "n mod 4 = 2" | "n mod 4 = 3"
    by linarith
  then show ?thesis
    by cases (simp_all add: directions_def)
qed

text \<open>\<^verbatim>\<open>move\<close> never raises; this is what it returns.\<close>

lemma move_eq:
  "move a g =
     Inr (if target a g \<in> set (dirt_positions a)
          then a\<lparr>position := target a g,
                 dirt_positions := remove1 (target a g) (dirt_positions a),
                 cleaned_spots := cleaned_spots a @ [target a g]\<rparr>
          else a\<lparr>position := target a g\<rparr>, stl g)"
  unfolding move_def choice_directions target_def list_remove_def Let_def
  by simp

section \<open>Facts about a move\<close>

lemma clamped_bounds:
  "1 \<le> (d::int) \<Longrightarrow> 0 \<le> max 0 (min (d - 1) x) \<and> max 0 (min (d - 1) x) < d"
  by arith

lemma target_in_grid:
  assumes "1 \<le> fst (grid_size a)" and "1 \<le> snd (grid_size a)"
  shows "in_grid (grid_size a) (target a g)"
  using clamped_bounds [OF assms(1)] clamped_bounds [OF assms(2)]
  by (simp add: target_def in_grid_def Let_def)

lemma move_position: "move a g = Inr (a', g') \<Longrightarrow> position a' = target a g"
  by (auto simp: move_eq split: if_splits)

lemma move_grid_size: "move a g = Inr (a', g') \<Longrightarrow> grid_size a' = grid_size a"
  by (auto simp: move_eq split: if_splits)

lemma moves_returns: "\<exists>a' g'. moves n a g = Inr (a', g')"
  by (induction n arbitrary: a g) (simp_all add: move_eq)

lemma moves_grid_size: "moves n a g = Inr (a', g') \<Longrightarrow> grid_size a' = grid_size a"
proof (induction n arbitrary: a g)
  case 0
  then show ?case by simp
next
  case (Suc n)
  then show ?case
    by (auto split: sum.splits dest: move_grid_size)
qed

lemma moves_in_grid:
  assumes "moves n a g = Inr (a', g')" and "in_grid (grid_size a) (position a)"
  shows "in_grid (grid_size a') (position a')"
  using assms
proof (induction n arbitrary: a g)
  case 0
  then show ?case by simp
next
  case (Suc n)
  from Suc.prems(1) obtain a1 g1 where
    m: "move a g = Inr (a1, g1)" and rest: "moves n a1 g1 = Inr (a', g')"
    by (auto split: sum.splits)
  from Suc.prems(2) have "1 \<le> fst (grid_size a)" "1 \<le> snd (grid_size a)"
    by (simp_all add: in_grid_def)
  then have "in_grid (grid_size a) (target a g)" by (rule target_in_grid)
  with move_position [OF m] move_grid_size [OF m]
  have "in_grid (grid_size a1) (position a1)" by simp
  with Suc.IH [OF rest] show ?case .
qed

lemma Rumba_init_eq:
  assumes "1 \<le> rows" and "1 \<le> cols"
  shows "Rumba_init (rows, cols) dirt g =
     Inr (\<lparr>grid_size = (rows, cols),
           dirt_positions = (case dirt of None \<Rightarrow> [] | Some xs \<Rightarrow> xs),
           position = (int (shd g mod nat rows), int (shd (stl g) mod nat cols)),
           cleaned_spots = []\<rparr>, stl (stl g))"
  using assms by (cases dirt) (simp_all add: Rumba_init_def randint_0)

lemma Rumba_init_in_grid:
  assumes "Rumba_init grid dirt g = Inr (a, g')"
  shows "grid_size a = grid \<and> in_grid grid (position a) \<and> cleaned_spots a = []"
proof -
  from assms obtain r g1 c where
    r: "randint 0 (fst grid - 1) g = Inr (r, g1)" and
    c: "randint 0 (snd grid - 1) g1 = Inr (c, g')" and
    a: "grid_size a = grid" "position a = (r, c)" "cleaned_spots a = []"
    by (auto simp: Rumba_init_def Let_def split: sum.splits)
  from randint_0_bounds [OF r] randint_0_bounds [OF c] a
  show ?thesis by (simp add: in_grid_def)
qed

text \<open>A move keeps the total number of cleaned and remaining dirt cells.\<close>

lemma move_conserves:
  assumes "move a g = Inr (a', g')"
  shows "length (cleaned_spots a') + length (dirt_positions a')
           = length (cleaned_spots a) + length (dirt_positions a)"
proof (cases "target a g \<in> set (dirt_positions a)")
  case True
  then have "length (remove1 (target a g) (dirt_positions a)) + 1 = length (dirt_positions a)"
    by (simp add: length_remove1) (cases "dirt_positions a"; simp)
  with True assms show ?thesis by (auto simp: move_eq)
next
  case False
  with assms show ?thesis by (auto simp: move_eq)
qed

lemma moves_conserves:
  assumes "moves n a g = Inr (a', g')"
  shows "length (cleaned_spots a') + length (dirt_positions a')
           = length (cleaned_spots a) + length (dirt_positions a)"
  using assms
proof (induction n arbitrary: a g)
  case 0
  then show ?case by simp
next
  case (Suc n)
  from Suc.prems obtain a1 g1 where
    m: "move a g = Inr (a1, g1)" and rest: "moves n a1 g1 = Inr (a', g')"
    by (auto split: sum.splits)
  from Suc.IH [OF rest] move_conserves [OF m] show ?case by simp
qed

section \<open>The generator of dirt spots\<close>

text \<open>On a grid with at least one row and one column the generator returns a list.\<close>

lemma generate_dirt_spots_loop_returns:
  assumes "1 \<le> fst grid" and "1 \<le> snd grid"
  shows "\<exists>ds g'. generate_dirt_spots_loop k grid acc g = Inr (ds, g')"
  using assms
  by (induction k arbitrary: acc g) (simp_all add: randint_0 Let_def)

text \<open>
  What the loop keeps: the list has no duplicates, its cells lie in the grid, and every
  iteration adds at most one cell.
\<close>

lemma generate_dirt_spots_loop_inv:
  assumes "generate_dirt_spots_loop k grid acc g = Inr (ds, g')"
    and "distinct acc" and "\<forall>p \<in> set acc. in_grid grid p"
  shows "distinct ds \<and> (\<forall>p \<in> set ds. in_grid grid p) \<and> length ds \<le> length acc + k"
  using assms
proof (induction k arbitrary: acc g)
  case 0
  then show ?case by simp
next
  case (Suc k)
  from Suc.prems(1) obtain r g1 c g2 where
    r: "randint 0 (fst grid - 1) g = Inr (r, g1)" and
    c: "randint 0 (snd grid - 1) g1 = Inr (c, g2)" and
    rest: "generate_dirt_spots_loop k grid
             (if (r, c) \<notin> set acc then acc @ [(r, c)] else acc) g2 = Inr (ds, g')"
    by (auto simp: Let_def split: sum.splits if_splits)
  let ?acc = "if (r, c) \<notin> set acc then acc @ [(r, c)] else acc"
  from randint_0_bounds [OF r] randint_0_bounds [OF c]
  have spot: "in_grid grid (r, c)" by (simp add: in_grid_def)
  have d: "distinct ?acc" using Suc.prems(2) by simp
  have b: "\<forall>p \<in> set ?acc. in_grid grid p" using Suc.prems(3) spot by simp
  have l: "length ?acc \<le> length acc + 1" by simp
  from Suc.IH [OF rest d b] l show ?case by simp
qed

text \<open>A duplicate-free list of cells of the grid is no longer than the grid has cells.\<close>

lemma in_grid_card:
  assumes "distinct ds" and "\<forall>p \<in> set ds. in_grid grid p"
    and "1 \<le> fst grid" and "1 \<le> snd grid"
  shows "int (length ds) \<le> fst grid * snd grid"
proof -
  have sub: "set ds \<subseteq> {0..<fst grid} \<times> {0..<snd grid}"
    using assms(2) by (auto simp: in_grid_def)
  have "length ds = card (set ds)" using assms(1) by (simp add: distinct_card)
  also have "\<dots> \<le> card ({0..<fst grid} \<times> {0..<snd grid})"
    by (rule card_mono [OF _ sub]) simp
  also have "\<dots> = nat (fst grid) * nat (snd grid)" by (simp add: card_cartesian_product)
  finally have "length ds \<le> nat (fst grid) * nat (snd grid)" .
  then have "int (length ds) \<le> int (nat (fst grid) * nat (snd grid))"
    by (simp only: of_nat_le_iff)
  moreover from assms(3,4)
  have "int (nat (fst grid) * nat (snd grid)) = fst grid * snd grid" by simp
  ultimately show ?thesis by (simp only:)
qed

text \<open>
  The part of the generator's contract that the code keeps: for a grid with at least one
  row and one column and a count \<open>n \<ge> 0\<close>, it returns a duplicate-free list of cells of
  the grid of length at most \<open>n\<close> and at most \<open>rows * cols\<close>.
\<close>

lemma generate_dirt_spots_sound:
  assumes "1 \<le> rows" and "1 \<le> cols" and "0 \<le> n"
  shows "\<exists>ds g'. generate_dirt_spots (rows, cols) n g = Inr (ds, g') \<and> distinct ds
           \<and> (\<forall>p \<in> set ds. in_grid (rows, cols) p)
           \<and> int (length ds) \<le> n \<and> int (length ds) \<le> rows * cols"
proof -
  from assms(1,2) obtain ds g' where
    run: "generate_dirt_spots_loop (nat n) (rows, cols) [] g = Inr (ds, g')"
    using generate_dirt_spots_loop_returns [of "(rows, cols)" "nat n" "[]" g] by auto
  from generate_dirt_spots_loop_inv [OF run]
  have inv: "distinct ds" "\<forall>p \<in> set ds. in_grid (rows, cols) p" "length ds \<le> nat n"
    by simp_all
  from inv(3) assms(3) have "int (length ds) \<le> n" by linarith
  moreover from in_grid_card [OF inv(1,2)] assms(1,2)
  have "int (length ds) \<le> rows * cols" by simp
  ultimately show ?thesis using run inv(1,2) by (simp add: generate_dirt_spots_def)
qed

text \<open>
  Claim C1. The generator is to return exactly \<open>requested_count\<close> cells whenever the grid
  has that many. The loop runs \<open>requested_count\<close> times and skips a draw that repeats an
  earlier one, without drawing again: on a 2 by 2 grid with two cells requested and a
  random source that yields the cell \<open>(0, 0)\<close> twice, the list returned has one cell.
\<close>

theorem generate_dirt_spots_repeated_draw:
  "generate_dirt_spots (2, 2) 2 (sconst 0) = Inr ([(0, 0)], sconst 0)"
  by (simp add: generate_dirt_spots_def randint_0 numeral_2_eq_2)

section \<open>A scripted run\<close>

text \<open>
  Claim C8. On a 3 by 3 grid with the single dirt cell \<open>(0, 0)\<close> and the robot at
  \<open>(2, 2)\<close>, four moves that draw up, up, left, left (the directions at indices 0, 0, 2,
  2) leave the robot at \<open>(0, 0)\<close>, with no dirt left and \<open>cleaned_spots = [(0, 0)]\<close>.
\<close>

theorem scripted_run:
  "choice directions (0 ## g) = Inr ((-1, 0), g) \<and>
   choice directions (2 ## g) = Inr ((0, -1), g) \<and>
   moves 4 \<lparr>grid_size = (3, 3), dirt_positions = [(0, 0)],
            position = (2, 2), cleaned_spots = []\<rparr> (0 ## 0 ## 2 ## 2 ## g)
     = Inr (\<lparr>grid_size = (3, 3), dirt_positions = [],
             position = (0, 0), cleaned_spots = [(0, 0)]\<rparr>, g) \<and>
   is_clean \<lparr>grid_size = (3, 3), dirt_positions = [],
             position = (0, 0), cleaned_spots = [(0, 0)]\<rparr>"
proof -
  have four: "(4::nat) = Suc (Suc (Suc (Suc 0)))" by simp
  have "moves 4 \<lparr>grid_size = (3, 3), dirt_positions = [(0, 0)],
            position = (2, 2), cleaned_spots = []\<rparr> (0 ## 0 ## 2 ## 2 ## g)
     = Inr (\<lparr>grid_size = (3, 3), dirt_positions = [],
             position = (0, 0), cleaned_spots = [(0, 0)]\<rparr>, g)"
    unfolding four by (simp add: move_eq target_def directions_def)
  then show ?thesis
    by (simp add: choice_def randbelow_def directions_def is_clean_def)
qed

section \<open>Positions stay in the grid\<close>

text \<open>
  Claim C3. On a grid with at least one row and one column, the generator returns cells
  of the grid only, the robot is created on a cell of the grid, and after any number of
  moves it is still on a cell of the grid; none of the three raises.
\<close>

theorem positions_in_grid:
  assumes "1 \<le> rows" and "1 \<le> cols"
  shows "(\<exists>ds g'. generate_dirt_spots (rows, cols) n g = Inr (ds, g') \<and>
            (\<forall>p \<in> set ds. in_grid (rows, cols) p)) \<and>
         (\<exists>a g'. Rumba_init (rows, cols) dirt g1 = Inr (a, g') \<and>
            in_grid (rows, cols) (position a) \<and>
            (\<forall>k g2. \<exists>a' g''. moves k a g2 = Inr (a', g'') \<and>
               in_grid (rows, cols) (position a')))"
proof
  from assms obtain ds g' where
    run: "generate_dirt_spots_loop (nat n) (rows, cols) [] g = Inr (ds, g')"
    using generate_dirt_spots_loop_returns [of "(rows, cols)" "nat n" "[]" g] by auto
  from generate_dirt_spots_loop_inv [OF run]
  have "\<forall>p \<in> set ds. in_grid (rows, cols) p" by simp
  with run show "\<exists>ds g'. generate_dirt_spots (rows, cols) n g = Inr (ds, g') \<and>
            (\<forall>p \<in> set ds. in_grid (rows, cols) p)"
    by (simp add: generate_dirt_spots_def)
next
  from Rumba_init_eq [OF assms] obtain a g' where
    init: "Rumba_init (rows, cols) dirt g1 = Inr (a, g')" by blast
  from Rumba_init_in_grid [OF init]
  have a: "grid_size a = (rows, cols)" "in_grid (rows, cols) (position a)" by simp_all
  have "\<exists>a' g''. moves k a g2 = Inr (a', g'') \<and> in_grid (rows, cols) (position a')"
    for k g2
  proof -
    from moves_returns obtain a' g'' where m: "moves k a g2 = Inr (a', g'')" by blast
    from moves_in_grid [OF m] moves_grid_size [OF m] a
    have "in_grid (rows, cols) (position a')" by simp
    with m show ?thesis by blast
  qed
  with init a(2) show "\<exists>a g'. Rumba_init (rows, cols) dirt g1 = Inr (a, g') \<and>
            in_grid (rows, cols) (position a) \<and>
            (\<forall>k g2. \<exists>a' g''. moves k a g2 = Inr (a', g'') \<and>
               in_grid (rows, cols) (position a'))"
    by blast
qed

theorem positions_in_grid_witness:
  "(1::int) \<le> 3 \<and> (1::int) \<le> 3 \<and>
   (\<exists>ds g'. generate_dirt_spots (3, 3) 2 (0 ## 1 ## 2 ## 0 ## sconst 0) = Inr (ds, g') \<and>
      (\<forall>p \<in> set ds. in_grid (3, 3) p)) \<and>
   (\<exists>a g'. Rumba_init (3, 3) (Some [(0, 1), (2, 0)]) (sconst 2) = Inr (a, g') \<and>
      in_grid (3, 3) (position a) \<and>
      (\<forall>k g2. \<exists>a' g''. moves k a g2 = Inr (a', g'') \<and> in_grid (3, 3) (position a')))"
  using positions_in_grid [of 3 3 2 "0 ## 1 ## 2 ## 0 ## sconst 0"
      "Some [(0, 1), (2, 0)]" "sconst 2"]
  by simp

section \<open>Bookkeeping of dirt\<close>

text \<open>
  Claim C4. From a state whose \<open>dirt_positions\<close> has no duplicates, one move either
  leaves \<open>dirt_positions\<close> and \<open>cleaned_spots\<close> as they are, or removes exactly the new
  position from \<open>dirt_positions\<close> (one element fewer) and appends it to
  \<open>cleaned_spots\<close>. From a state with nothing cleaned yet, after any number \<open>N\<close> of
  moves the length of \<open>cleaned_spots\<close> is the initial number of dirt cells minus the
  number of those that remain.
\<close>

theorem move_cleans_at_most_one:
  assumes "distinct (dirt_positions a)"
  shows "\<exists>a' g'. move a g = Inr (a', g') \<and> distinct (dirt_positions a') \<and>
           ((dirt_positions a' = dirt_positions a \<and> cleaned_spots a' = cleaned_spots a) \<or>
            (length (dirt_positions a') + 1 = length (dirt_positions a) \<and>
             position a' \<in> set (dirt_positions a) \<and>
             set (dirt_positions a') = set (dirt_positions a) - {position a'} \<and>
             cleaned_spots a' = cleaned_spots a @ [position a'])) \<and>
           (cleaned_spots a = [] \<longrightarrow>
              (\<exists>aN gN. moves N a g = Inr (aN, gN) \<and>
                 int (length (cleaned_spots aN))
                   = int (length (dirt_positions a)) - int (length (dirt_positions aN))))"
proof -
  obtain a' g' where m: "move a g = Inr (a', g')" by (simp add: move_eq)
  have d: "distinct (dirt_positions a')"
    using m assms by (auto simp: move_eq split: if_splits)
  have step: "(dirt_positions a' = dirt_positions a \<and> cleaned_spots a' = cleaned_spots a) \<or>
            (length (dirt_positions a') + 1 = length (dirt_positions a) \<and>
             position a' \<in> set (dirt_positions a) \<and>
             set (dirt_positions a') = set (dirt_positions a) - {position a'} \<and>
             cleaned_spots a' = cleaned_spots a @ [position a'])"
  proof (cases "target a g \<in> set (dirt_positions a)")
    case True
    then have "length (remove1 (target a g) (dirt_positions a)) + 1 = length (dirt_positions a)"
      by (simp add: length_remove1) (cases "dirt_positions a"; simp)
    with True m assms show ?thesis by (auto simp: move_eq)
  next
    case False
    with m show ?thesis by (auto simp: move_eq)
  qed
  have many: "\<exists>aN gN. moves N a g = Inr (aN, gN) \<and>
                 int (length (cleaned_spots aN))
                   = int (length (dirt_positions a)) - int (length (dirt_positions aN))"
    if init: "cleaned_spots a = []"
  proof -
    from moves_returns obtain aN gN where ms: "moves N a g = Inr (aN, gN)" by blast
    from moves_conserves [OF ms] init
    have "int (length (cleaned_spots aN))
            = int (length (dirt_positions a)) - int (length (dirt_positions aN))"
      by simp
    with ms show ?thesis by blast
  qed
  from m d step many show ?thesis by blast
qed

theorem move_cleans_at_most_one_witness:
  "distinct (dirt_positions \<lparr>grid_size = (3, 3), dirt_positions = [(0, 0), (2, 2)],
                             position = (1, 0), cleaned_spots = []\<rparr>) \<and>
   move \<lparr>grid_size = (3, 3), dirt_positions = [(0, 0), (2, 2)],
         position = (1, 0), cleaned_spots = []\<rparr> (0 ## sconst 1)
     = Inr (\<lparr>grid_size = (3, 3), dirt_positions = [(2, 2)],
             position = (0, 0), cleaned_spots = [(0, 0)]\<rparr>, sconst 1) \<and>
   (\<exists>aN gN. moves 3 \<lparr>grid_size = (3, 3), dirt_positions = [(0, 0), (2, 2)],
                      position = (1, 0), cleaned_spots = []\<rparr> (0 ## sconst 1) = Inr (aN, gN) \<and>
      int (length (cleaned_spots aN)) = 2 - int (length (dirt_positions aN)))"
  using move_cleans_at_most_one [of "\<lparr>grid_size = (3, 3), dirt_positions = [(0, 0), (2, 2)],
         position = (1, 0), cleaned_spots = []\<rparr>" "0 ## sconst 1" 3]
  by (simp add: move_eq target_def directions_def)

section \<open>A clean house stays clean\<close>

text \<open>
  Claim C6. Once \<open>is_clean\<close> holds, one more move, and any number of further moves,
  leave \<open>dirt_positions\<close> empty and \<open>cleaned_spots\<close> unchanged.
\<close>

theorem clean_is_absorbing:
  assumes "is_clean a"
  shows "(\<exists>a' g'. move a g = Inr (a', g') \<and> is_clean a' \<and> dirt_positions a' = [] \<and>
            cleaned_spots a' = cleaned_spots a) \<and>
         (\<exists>a' g'. moves n a g = Inr (a', g') \<and> is_clean a' \<and> dirt_positions a' = [] \<and>
            cleaned_spots a' = cleaned_spots a)"
proof
  from assms show "\<exists>a' g'. move a g = Inr (a', g') \<and> is_clean a' \<and> dirt_positions a' = [] \<and>
            cleaned_spots a' = cleaned_spots a"
    by (simp add: move_eq is_clean_def)
next
  from assms show "\<exists>a' g'. moves n a g = Inr (a', g') \<and> is_clean a' \<and> dirt_positions a' = [] \<and>
            cleaned_spots a' = cleaned_spots a"
  proof (induction n arbitrary: a g)
    case 0
    then show ?case by (simp add: is_clean_def)
  next
    case (Suc n)
    let ?a1 = "a\<lparr>position := target a g\<rparr>"
    from Suc.prems have m: "move a g = Inr (?a1, stl g)"
      by (simp add: move_eq is_clean_def)
    from Suc.prems have "is_clean ?a1" by (simp add: is_clean_def)
    from Suc.IH [OF this, of "stl g"] m show ?case by simp
  qed
qed

theorem clean_is_absorbing_witness:
  "is_clean \<lparr>grid_size = (3, 3), dirt_positions = [],
             position = (1, 1), cleaned_spots = [(0, 0)]\<rparr> \<and>
   move \<lparr>grid_size = (3, 3), dirt_positions = [],
         position = (1, 1), cleaned_spots = [(0, 0)]\<rparr> (0 ## sconst 0)
     = Inr (\<lparr>grid_size = (3, 3), dirt_positions = [],
             position = (0, 1), cleaned_spots = [(0, 0)]\<rparr>, sconst 0) \<and>
   (\<exists>a' g'. moves 5 \<lparr>grid_size = (3, 3), dirt_positions = [],
         position = (1, 1), cleaned_spots = [(0, 0)]\<rparr> (0 ## sconst 0) = Inr (a', g') \<and>
      is_clean a' \<and> dirt_positions a' = [] \<and> cleaned_spots a' = [(0, 0)])"
  using clean_is_absorbing [of "\<lparr>grid_size = (3, 3), dirt_positions = [],
         position = (1, 1), cleaned_spots = [(0, 0)]\<rparr>" "0 ## sconst 0" 5]
  by (simp add: move_eq target_def directions_def is_clean_def)

section \<open>A move is a unit step\<close>

text \<open>
  Claim C10. From a state whose position lies in the grid, whatever direction is drawn, a
  move leaves one of the two coordinates unchanged and the two positions are at Manhattan
  distance at most 1.
\<close>

theorem move_is_unit_step:
  assumes "in_grid (grid_size a) (position a)"
  shows "\<exists>a' g'. move a g = Inr (a', g') \<and>
           (fst (position a') = fst (position a) \<or> snd (position a') = snd (position a)) \<and>
           \<bar>fst (position a') - fst (position a)\<bar> + \<bar>snd (position a') - snd (position a)\<bar> \<le> 1"
proof -
  obtain a' g' where m: "move a g = Inr (a', g')" by (simp add: move_eq)
  from move_position [OF m] have p: "position a' = target a g" .
  from direction_cases [of "shd g"] assms
  have "(fst (target a g) = fst (position a) \<or> snd (target a g) = snd (position a)) \<and>
        \<bar>fst (target a g) - fst (position a)\<bar> + \<bar>snd (target a g) - snd (position a)\<bar> \<le> 1"
    by (auto simp: target_def in_grid_def Let_def)
  with m p show ?thesis by auto
qed

theorem move_is_unit_step_witness:
  "in_grid (3, 3) (2, 2) \<and>
   (\<exists>a' g'. move \<lparr>grid_size = (3, 3), dirt_positions = [(0, 0)],
                   position = (2, 2), cleaned_spots = []\<rparr> (sconst 3) = Inr (a', g') \<and>
      (fst (position a') = 2 \<or> snd (position a') = 2) \<and>
      \<bar>fst (position a') - 2\<bar> + \<bar>snd (position a') - 2\<bar> \<le> 1)"
  using move_is_unit_step [of "\<lparr>grid_size = (3, 3), dirt_positions = [(0, 0)],
                   position = (2, 2), cleaned_spots = []\<rparr>" "sconst 3"]
  by (simp add: in_grid_def)

section \<open>The main loop stops within its budget\<close>

text \<open>
  Started with \<open>steps \<le> max_steps\<close>, the loop returns; the counter it returns is at most
  \<open>max_steps\<close>, it has grown by the number of moves made, and the loop has stopped on a
  clean house or on an exhausted budget.
\<close>

lemma run_loop_bounds:
  assumes "steps \<le> max_steps"
  shows "\<exists>a' s' g'. run_loop a steps max_steps g = Inr (a', s', g') \<and>
           steps \<le> s' \<and> s' \<le> max_steps \<and>
           moves (nat (s' - steps)) a g = Inr (a', g') \<and>
           (is_clean a' \<or> s' = max_steps)"
  using assms
proof (induction a steps max_steps g rule: run_loop.induct)
  case (1 a steps max_steps g)
  show ?case
  proof (cases "\<not> is_clean a \<and> steps < max_steps")
    case True
    obtain a1 g1 where m: "move a g = Inr (a1, g1)" by (simp add: move_eq)
    from True have "steps + 1 \<le> max_steps" by simp
    from "1.IH" [OF True m refl this] obtain a' s' g' where
      r: "run_loop a1 (steps + 1) max_steps g1 = Inr (a', s', g')" and
      b: "steps + 1 \<le> s'" "s' \<le> max_steps" and
      ms: "moves (nat (s' - (steps + 1))) a1 g1 = Inr (a', g')" and
      e: "is_clean a' \<or> s' = max_steps"
      by blast
    from b(1) have "nat (s' - steps) = Suc (nat (s' - (steps + 1)))" by simp
    with m ms have "moves (nat (s' - steps)) a g = Inr (a', g')" by simp
    moreover from True m r have "run_loop a steps max_steps g = Inr (a', s', g')"
      by (simp add: run_loop.simps [of a steps max_steps g])
    ultimately show ?thesis using b e by auto
  next
    case False
    then have "run_loop a steps max_steps g = Inr (a, steps, g)"
      by (auto simp: run_loop.simps [of a steps max_steps g])
    with False "1.prems" show ?thesis by auto
  qed
qed


lemma run_loop_clean: "is_clean a \<Longrightarrow> run_loop a steps max_steps g = Inr (a, steps, g)"
  by (simp add: run_loop.simps [of a steps max_steps g])

lemma Casa_init_eq:
  assumes "1 \<le> rows" and "1 \<le> cols"
  shows "\<exists>ds g'. Casa_init (rows, cols) n g
            = Inr (\<lparr>casa_grid_size = (rows, cols), casa_dirt_positions = ds\<rparr>, g')"
proof -
  from assms obtain ds g' where
    "generate_dirt_spots_loop (nat n) (rows, cols) [] g = Inr (ds, g')"
    using generate_dirt_spots_loop_returns [of "(rows, cols)" "nat n" "[]" g] by auto
  then show ?thesis by (simp add: Casa_init_def generate_dirt_spots_def)
qed

text \<open>
  Claim C7. For \<open>max_steps > 0\<close> the loop, started at \<open>steps = 0\<close>, returns after
  \<open>steps\<close> moves with \<open>0 \<le> steps \<le> max_steps\<close>, whatever the state and the random draws;
  on a grid with at least one row and one column the whole run returns a report, and a
  report of success shows a number of steps between \<open>0\<close> and \<open>max_steps\<close>. With a clean
  house the loop makes no move, and a run with zero dirt spots reports success after
  \<open>0\<close> steps.
\<close>

theorem run_loop_within_budget:
  assumes "0 < max_steps" and "1 \<le> rows" and "1 \<le> cols"
  shows "(\<exists>a' steps g'. run_loop a 0 max_steps g = Inr (a', steps, g') \<and>
            0 \<le> steps \<and> steps \<le> max_steps \<and> moves (nat steps) a g = Inr (a', g')) \<and>
         (\<exists>rep. run (rows, cols) n max_steps g = Inr rep \<and>
            (rep = Could_not_clean max_steps \<or>
             (\<exists>steps. rep = All_spots_cleaned steps \<and> 0 \<le> steps \<and> steps \<le> max_steps))) \<and>
         (is_clean a \<longrightarrow> run_loop a 0 max_steps g = Inr (a, 0, g)) \<and>
         run (rows, cols) 0 max_steps g = Inr (All_spots_cleaned 0)"
proof (intro conjI)
  from assms(1) have le: "0 \<le> max_steps" by simp
  from run_loop_bounds [OF le, of a g]
  show "\<exists>a' steps g'. run_loop a 0 max_steps g = Inr (a', steps, g') \<and>
            0 \<le> steps \<and> steps \<le> max_steps \<and> moves (nat steps) a g = Inr (a', g')"
    by auto
  from Casa_init_eq [OF assms(2,3)] obtain ds g1 where
    c: "Casa_init (rows, cols) n g
          = Inr (\<lparr>casa_grid_size = (rows, cols), casa_dirt_positions = ds\<rparr>, g1)"
    by blast
  from Rumba_init_eq [OF assms(2,3)] obtain a0 g2 where
    r: "Rumba_init (rows, cols) (Some ds) g1 = Inr (a0, g2)" by blast
  from run_loop_bounds [OF le, of a0 g2] obtain a' steps g3 where
    l: "run_loop a0 0 max_steps g2 = Inr (a', steps, g3)" and
    b: "0 \<le> steps" "steps \<le> max_steps"
    by blast
  from c r l b
  show "\<exists>rep. run (rows, cols) n max_steps g = Inr rep \<and>
            (rep = Could_not_clean max_steps \<or>
             (\<exists>steps. rep = All_spots_cleaned steps \<and> 0 \<le> steps \<and> steps \<le> max_steps))"
    by (simp add: run_def get_dirt_positions_def)
  show "is_clean a \<longrightarrow> run_loop a 0 max_steps g = Inr (a, 0, g)"
    by (simp add: run_loop_clean)
  have "Casa_init (rows, cols) 0 g
          = Inr (\<lparr>casa_grid_size = (rows, cols), casa_dirt_positions = []\<rparr>, g)"
    by (simp add: Casa_init_def generate_dirt_spots_def)
  with Rumba_init_eq [OF assms(2,3), of "Some []"]
  show "run (rows, cols) 0 max_steps g = Inr (All_spots_cleaned 0)"
    by (simp add: run_def get_dirt_positions_def run_loop_clean is_clean_def)
qed

theorem run_loop_within_budget_witness:
  "(0::int) < 1 \<and> (1::int) \<le> 10 \<and> (1::int) \<le> 10 \<and>
   run_loop \<lparr>grid_size = (10, 10), dirt_positions = [(9, 9)],
             position = (0, 0), cleaned_spots = []\<rparr> 0 1 (sconst 0)
     = Inr (\<lparr>grid_size = (10, 10), dirt_positions = [(9, 9)],
             position = (0, 0), cleaned_spots = []\<rparr>, 1, sconst 0) \<and>
   is_clean \<lparr>grid_size = (10, 10), dirt_positions = [],
             position = (0, 0), cleaned_spots = []\<rparr> \<and>
   run_loop \<lparr>grid_size = (10, 10), dirt_positions = [],
             position = (0, 0), cleaned_spots = []\<rparr> 0 1 (sconst 0)
     = Inr (\<lparr>grid_size = (10, 10), dirt_positions = [],
             position = (0, 0), cleaned_spots = []\<rparr>, 0, sconst 0) \<and>
   run (10, 10) 0 1 (sconst 0) = Inr (All_spots_cleaned 0)"
  using run_loop_within_budget [of 1 10 10
      "\<lparr>grid_size = (10, 10), dirt_positions = [],
             position = (0, 0), cleaned_spots = []\<rparr>" "sconst 0" 0]
  by (simp add: is_clean_def move_eq target_def directions_def
        run_loop.simps [of _ 0 1] run_loop.simps [of _ 1 1])

section \<open>Grids without cells\<close>

text \<open>
  Claim C2 says that \<^verbatim>\<open>Casa\<close> and \<^verbatim>\<open>Rumba\<close> reject every grid with a dimension
  \<open>\<le> 0\<close>. Neither constructor checks its grid; an error can only come from
  \<^verbatim>\<open>random.randint\<close> on an empty range. \<^verbatim>\<open>Casa\<close> draws only inside its loop, so with no
  dirt spot requested it builds a house on the grid \<open>(0, 0)\<close>.
\<close>

theorem Casa_init_empty_grid:
  "Casa_init (0, 0) 0 (sconst 0)
     = Inr (\<lparr>casa_grid_size = (0, 0), casa_dirt_positions = []\<rparr>, sconst 0)"
  by (simp add: Casa_init_def generate_dirt_spots_def)

text \<open>
  Claim C2, as the code has it: with a dimension \<open>\<le> 0\<close>, \<^verbatim>\<open>Rumba\<close> always raises
  \<^verbatim>\<open>ValueError\<close>; \<^verbatim>\<open>Casa\<close> raises \<^verbatim>\<open>ValueError\<close> when at least one dirt spot is
  requested, and otherwise returns a house with the grid as given and no dirt.
\<close>

theorem nonpositive_grid:
  assumes "rows \<le> 0 \<or> cols \<le> 0"
  shows "Rumba_init (rows, cols) dirt g = Inl ValueError \<and>
         (1 \<le> n \<longrightarrow> Casa_init (rows, cols) n g = Inl ValueError) \<and>
         (n \<le> 0 \<longrightarrow> Casa_init (rows, cols) n g
            = Inr (\<lparr>casa_grid_size = (rows, cols), casa_dirt_positions = []\<rparr>, g))"
proof (intro conjI impI)
  from assms show "Rumba_init (rows, cols) dirt g = Inl ValueError"
    by (auto simp: Rumba_init_def randint_0)
next
  assume "1 \<le> n"
  then obtain k where k: "nat n = Suc k" by (cases "nat n") auto
  from assms show "Casa_init (rows, cols) n g = Inl ValueError"
    by (auto simp: Casa_init_def generate_dirt_spots_def k randint_0)
next
  assume "n \<le> 0"
  then show "Casa_init (rows, cols) n g
            = Inr (\<lparr>casa_grid_size = (rows, cols), casa_dirt_positions = []\<rparr>, g)"
    by (simp add: Casa_init_def generate_dirt_spots_def)
qed

theorem nonpositive_grid_witness:
  "((0::int) \<le> 0 \<or> (5::int) \<le> 0) \<and> (1::int) \<le> 5 \<and> (0::int) \<le> 0 \<and>
   Rumba_init (0, 5) None (sconst 0) = Inl ValueError \<and>
   Casa_init (0, 5) 5 (sconst 0) = Inl ValueError \<and>
   Casa_init (0, 5) 0 (sconst 0)
     = Inr (\<lparr>casa_grid_size = (0, 5), casa_dirt_positions = []\<rparr>, sconst 0)"
  using nonpositive_grid [of 0 5 None "sconst 0" 5] nonpositive_grid [of 0 5 None "sconst 0" 0]
  by simp

section \<open>Moving into a wall\<close>

text \<open>
  On an axis of dimension \<open>d \<ge> 1\<close> the code's \<^verbatim>\<open>max(0, min(d - 1, x))\<close> is the clamping of
  the specification.
\<close>

lemma clamp_to_eq: "1 \<le> d \<Longrightarrow> max 0 (min (d - 1) x) = clamp_to d x"
  by (simp add: clamp_to_def max_def min_def)

lemma clamp_to_bounds: "1 \<le> d \<Longrightarrow> 0 \<le> clamp_to d x \<and> clamp_to d x \<le> d - 1"
  by (simp add: clamp_to_def)

lemma target_clamp_to:
  assumes "1 \<le> fst (grid_size a)" and "1 \<le> snd (grid_size a)"
  shows "target a g = (clamp_to (fst (grid_size a)) (fst (candidate a g)),
                       clamp_to (snd (grid_size a)) (snd (candidate a g)))"
  using assms by (simp add: target_def candidate_def Let_def clamp_to_eq)

lemma wall_keeps_position:
  assumes "in_grid (grid_size a) (position a)" and "\<not> in_grid (grid_size a) (candidate a g)"
  shows "target a g = position a"
proof -
  from direction_cases [of "shd g"] assms show ?thesis
    by (cases "position a") (auto simp: target_def candidate_def in_grid_def Let_def)
qed

text \<open>
  Claim C5. A move commits the candidate position with each coordinate clamped, on its
  own, to \<open>[0, dimension - 1]\<close>; when the candidate lies off the grid the robot stays
  where it is. From \<open>(0, 0)\<close> on a 5 by 5 grid the direction up gives \<open>(0, 0)\<close> again, and
  the main loop counts that move: with a budget of one step it stops with \<open>steps = 1\<close>.
\<close>

theorem move_clamps:
  assumes "1 \<le> fst (grid_size a)" and "1 \<le> snd (grid_size a)"
  shows "(\<exists>a'. move a g = Inr (a', stl g) \<and>
            position a' = (clamp_to (fst (grid_size a)) (fst (candidate a g)),
                           clamp_to (snd (grid_size a)) (snd (candidate a g))) \<and>
            0 \<le> fst (position a') \<and> fst (position a') \<le> fst (grid_size a) - 1 \<and>
            0 \<le> snd (position a') \<and> snd (position a') \<le> snd (grid_size a) - 1 \<and>
            (in_grid (grid_size a) (position a) \<and> \<not> in_grid (grid_size a) (candidate a g)
               \<longrightarrow> position a' = position a)) \<and>
         (\<exists>a'. move \<lparr>grid_size = (5, 5), dirt_positions = ds,
                      position = (0, 0), cleaned_spots = cs\<rparr> (0 ## g') = Inr (a', g') \<and>
            position a' = (0, 0)) \<and>
         run_loop \<lparr>grid_size = (5, 5), dirt_positions = [(4, 4)],
                   position = (0, 0), cleaned_spots = []\<rparr> 0 1 (0 ## g')
           = Inr (\<lparr>grid_size = (5, 5), dirt_positions = [(4, 4)],
                   position = (0, 0), cleaned_spots = []\<rparr>, 1, g')"
proof (intro conjI)
  obtain a' where m: "move a g = Inr (a', stl g)" by (simp add: move_eq)
  from move_position [OF m] target_clamp_to [OF assms]
  have p: "position a' = (clamp_to (fst (grid_size a)) (fst (candidate a g)),
                         clamp_to (snd (grid_size a)) (snd (candidate a g)))"
    by simp
  from p clamp_to_bounds [OF assms(1)] clamp_to_bounds [OF assms(2)]
  have b: "0 \<le> fst (position a') \<and> fst (position a') \<le> fst (grid_size a) - 1 \<and>
           0 \<le> snd (position a') \<and> snd (position a') \<le> snd (grid_size a) - 1"
    by simp
  from move_position [OF m] wall_keeps_position [of a g]
  have w: "in_grid (grid_size a) (position a) \<and> \<not> in_grid (grid_size a) (candidate a g)
             \<longrightarrow> position a' = position a"
    by simp
  from m p b w
  show "\<exists>a'. move a g = Inr (a', stl g) \<and>
            position a' = (clamp_to (fst (grid_size a)) (fst (candidate a g)),
                           clamp_to (snd (grid_size a)) (snd (candidate a g))) \<and>
            0 \<le> fst (position a') \<and> fst (position a') \<le> fst (grid_size a) - 1 \<and>
            0 \<le> snd (position a') \<and> snd (position a') \<le> snd (grid_size a) - 1 \<and>
            (in_grid (grid_size a) (position a) \<and> \<not> in_grid (grid_size a) (candidate a g)
               \<longrightarrow> position a' = position a)"
    by blast
  show "\<exists>a'. move \<lparr>grid_size = (5, 5), dirt_positions = ds,
                      position = (0, 0), cleaned_spots = cs\<rparr> (0 ## g') = Inr (a', g') \<and>
            position a' = (0, 0)"
    by (simp add: move_eq target_def directions_def)
  show "run_loop \<lparr>grid_size = (5, 5), dirt_positions = [(4, 4)],
                   position = (0, 0), cleaned_spots = []\<rparr> 0 1 (0 ## g')
           = Inr (\<lparr>grid_size = (5, 5), dirt_positions = [(4, 4)],
                   position = (0, 0), cleaned_spots = []\<rparr>, 1, g')"
    by (simp add: run_loop.simps [of _ 0 1] run_loop.simps [of _ 1 1]
          is_clean_def move_eq target_def directions_def)
qed

theorem move_clamps_witness:
  "(1::int) \<le> 5 \<and> (1::int) \<le> 5 \<and> in_grid (5, 5) (0, 0) \<and>
   candidate \<lparr>grid_size = (5, 5), dirt_positions = [(4, 4)],
              position = (0, 0), cleaned_spots = []\<rparr> (0 ## sconst 0) = (-1, 0) \<and>
   \<not> in_grid (5, 5) (-1, 0) \<and>
   (\<exists>a'. move \<lparr>grid_size = (5, 5), dirt_positions = [(4, 4)],
                position = (0, 0), cleaned_spots = []\<rparr> (0 ## sconst 0) = Inr (a', sconst 0) \<and>
      position a' = (clamp_to 5 (-1), clamp_to 5 0) \<and> position a' = (0, 0))"
  using move_clamps [of "\<lparr>grid_size = (5, 5), dirt_positions = [(4, 4)],
                position = (0, 0), cleaned_spots = []\<rparr>" "0 ## sconst 0"]
  by (simp add: in_grid_def candidate_def directions_def clamp_to_def)

section \<open>Who shares a list with whom\<close>

text \<open>
  The program on the store and the program on values agree: as long as the robot's two
  lists are different objects, which its constructor ensures, a move on the store is the
  move on the robot read from the store.
\<close>

lemma move_obj_refines:
  assumes "ro_dirt_positions a \<noteq> ro_cleaned_spots a"
  shows "\<exists>a' h'. move_obj a g h = Inr (a', stl g, h') \<and>
           move (rumba_of h a) g = Inr (rumba_of h' a', stl g) \<and>
           ro_dirt_positions a' = ro_dirt_positions a \<and>
           ro_cleaned_spots a' = ro_cleaned_spots a"
  using assms
  unfolding move_obj_def move_def choice_directions Let_def
  by (auto simp: rumba_of_def remove_at_def append_at_def list_remove_def)

lemma move_obj_returns:
  "\<exists>a' h'. move_obj a g h = Inr (a', stl g, h') \<and>
     ro_dirt_positions a' = ro_dirt_positions a \<and> ro_cleaned_spots a' = ro_cleaned_spots a"
  unfolding move_obj_def choice_directions Let_def
  by (auto simp: remove_at_def append_at_def list_remove_def)

lemma Rumba_init_obj_refines:
  assumes "Rumba_init_obj grid dirt g h = Inr (a, g', h')"
    and "\<forall>r. dirt = Some r \<longrightarrow> r < fresh h"
  shows "Rumba_init grid (map_option (cells h) dirt) g = Inr (rumba_of h' a, g') \<and>
         ro_dirt_positions a \<noteq> ro_cleaned_spots a"
  using assms
  unfolding Rumba_init_obj_def Rumba_init_def Let_def
  by (cases dirt) (auto simp: rumba_of_def new_list_def split: sum.splits if_splits)

lemma Casa_init_obj_refines:
  assumes "Casa_init_obj grid n g h = Inr (c, g', h')"
  shows "Casa_init grid n g
           = Inr (\<lparr>casa_grid_size = co_grid_size c,
                   casa_dirt_positions = cells h' (co_dirt_positions c)\<rparr>, g') \<and>
         co_dirt_positions c < fresh h'"
  using assms
  by (auto simp: Casa_init_obj_def Casa_init_def new_list_def split: sum.splits)

text \<open>
  Claim C9 says that the dictionary returned by \<^verbatim>\<open>get_state\<close> cannot be used to change
  the robot's lists, and that the house keeps no reference to the robot's dirt list.
  \<^verbatim>\<open>get_state\<close> returns the robot's own lists and \<^verbatim>\<open>Rumba.__init__\<close> keeps the list of
  the house. After \<^verbatim>\<open>Casa((2, 2), 1)\<close> and \<^verbatim>\<open>Rumba((2, 2), casa.get_dirt_positions())\<close>
  with all draws \<open>0\<close>, appending \<open>(1, 1)\<close> to the \<^verbatim>\<open>'dirt_positions'\<close> entry of the
  snapshot turns the robot's dirt list from \<open>[(0, 0)]\<close> into \<open>[(0, 0), (1, 1)]\<close>.
\<close>

theorem snapshot_mutation_reaches_robot:
  "Casa_init_obj (2, 2) 1 (sconst 0) empty_heap
     = Inr (\<lparr>co_grid_size = (2, 2), co_dirt_positions = 0\<rparr>, sconst 0,
            snd (new_list [(0, 0)] empty_heap)) \<and>
   Rumba_init_obj (2, 2) (Some 0) (sconst 0) (snd (new_list [(0, 0)] empty_heap))
     = Inr (\<lparr>ro_grid_size = (2, 2), ro_dirt_positions = 0,
             ro_position = (0, 0), ro_cleaned_spots = 1\<rparr>, sconst 0,
            snd (new_list [] (snd (new_list [(0, 0)] empty_heap)))) \<and>
   dirt_positions
     (rumba_of (snd (new_list [] (snd (new_list [(0, 0)] empty_heap))))
        \<lparr>ro_grid_size = (2, 2), ro_dirt_positions = 0,
         ro_position = (0, 0), ro_cleaned_spots = 1\<rparr>) = [(0, 0)] \<and>
   dirt_positions
     (rumba_of
        (append_at
           (sd_dirt_positions
              (get_state_obj \<lparr>ro_grid_size = (2, 2), ro_dirt_positions = 0,
                              ro_position = (0, 0), ro_cleaned_spots = 1\<rparr>))
           (1, 1) (snd (new_list [] (snd (new_list [(0, 0)] empty_heap)))))
        \<lparr>ro_grid_size = (2, 2), ro_dirt_positions = 0,
         ro_position = (0, 0), ro_cleaned_spots = 1\<rparr>) = [(0, 0), (1, 1)]"
  by (simp add: Casa_init_obj_def Rumba_init_obj_def generate_dirt_spots_def randint_0
        new_list_def empty_heap_def rumba_of_def append_at_def get_state_obj_def)

text \<open>
  Claim C9, as the code has it: the snapshot carries the robot's position (an immutable
  pair) and the robot's own two list objects, so an element appended to a list of the
  snapshot is appended to the robot's list; and a robot built from the non-empty dirt list
  of a house holds that very list, so an element appended through the house's reference
  is appended to the robot's dirt list, and after a move the house's list is still the
  robot's remaining dirt.
\<close>

theorem lists_are_shared:
  assumes "Casa_init_obj grid n g h = Inr (house, g1, h1)"
    and "Rumba_init_obj grid (Some (get_dirt_positions_obj house)) g1 h1 = Inr (a, g2, h2)"
    and "cells h1 (co_dirt_positions house) \<noteq> []"
  shows "ro_dirt_positions a = co_dirt_positions house \<and>
         sd_position (get_state_obj a) = ro_position a \<and>
         sd_dirt_positions (get_state_obj a) = ro_dirt_positions a \<and>
         sd_cleaned_spots (get_state_obj a) = ro_cleaned_spots a \<and>
         dirt_positions (rumba_of (append_at (sd_dirt_positions (get_state_obj a)) x h') a)
           = dirt_positions (rumba_of h' a) @ [x] \<and>
         cleaned_spots (rumba_of (append_at (sd_cleaned_spots (get_state_obj a)) x h') a)
           = cleaned_spots (rumba_of h' a) @ [x] \<and>
         dirt_positions (rumba_of (append_at (co_dirt_positions house) x h') a)
           = dirt_positions (rumba_of h' a) @ [x] \<and>
         (\<exists>a' h''. move_obj a g' h' = Inr (a', stl g', h'') \<and>
            cells h'' (co_dirt_positions house) = dirt_positions (rumba_of h'' a'))"
proof -
  from assms(2,3) have same: "ro_dirt_positions a = co_dirt_positions house"
    by (auto simp: Rumba_init_obj_def get_dirt_positions_obj_def new_list_def
          split: sum.splits)
  from move_obj_returns [of a g' h'] obtain a' h'' where
    m: "move_obj a g' h' = Inr (a', stl g', h'')" and
    d: "ro_dirt_positions a' = ro_dirt_positions a"
    by blast
  from same d have "cells h'' (co_dirt_positions house) = dirt_positions (rumba_of h'' a')"
    by (simp add: rumba_of_def)
  with m have mv: "\<exists>a' h''. move_obj a g' h' = Inr (a', stl g', h'') \<and>
            cells h'' (co_dirt_positions house) = dirt_positions (rumba_of h'' a')"
    by blast
  from same mv show ?thesis
    by (simp add: get_state_obj_def rumba_of_def append_at_def)
qed

theorem lists_are_shared_witness:
  "Casa_init_obj (2, 2) 1 (sconst 0) empty_heap
     = Inr (\<lparr>co_grid_size = (2, 2), co_dirt_positions = 0\<rparr>, sconst 0,
            snd (new_list [(0, 0)] empty_heap)) \<and>
   Rumba_init_obj (2, 2)
       (Some (get_dirt_positions_obj \<lparr>co_grid_size = (2, 2), co_dirt_positions = 0\<rparr>))
       (sconst 0) (snd (new_list [(0, 0)] empty_heap))
     = Inr (\<lparr>ro_grid_size = (2, 2), ro_dirt_positions = 0,
             ro_position = (0, 0), ro_cleaned_spots = 1\<rparr>, sconst 0,
            snd (new_list [] (snd (new_list [(0, 0)] empty_heap)))) \<and>
   cells (snd (new_list [(0, 0)] empty_heap)) 0 \<noteq> [] \<and>
   ro_dirt_positions \<lparr>ro_grid_size = (2, 2), ro_dirt_positions = 0,
                      ro_position = (0, 0), ro_cleaned_spots = 1\<rparr>
     = co_dirt_positions \<lparr>co_grid_size = (2, 2), co_dirt_positions = 0\<rparr> \<and>
   (\<exists>a' h''. move_obj \<lparr>ro_grid_size = (2, 2), ro_dirt_positions = 0,
                        ro_position = (0, 0), ro_cleaned_spots = 1\<rparr> (sconst 0)
                 (snd (new_list [] (snd (new_list [(0, 0)] empty_heap))))
               = Inr (a', stl (sconst 0), h'') \<and>
      cells h'' 0 = dirt_positions (rumba_of h'' a'))"
proof -
  have c: "Casa_init_obj (2, 2) 1 (sconst 0) empty_heap
     = Inr (\<lparr>co_grid_size = (2, 2), co_dirt_positions = 0\<rparr>, sconst 0,
            snd (new_list [(0, 0)] empty_heap))"
    by (simp add: Casa_init_obj_def generate_dirt_spots_def randint_0 new_list_def
          empty_heap_def)
  have r: "Rumba_init_obj (2, 2)
       (Some (get_dirt_positions_obj \<lparr>co_grid_size = (2, 2), co_dirt_positions = 0\<rparr>))
       (sconst 0) (snd (new_list [(0, 0)] empty_heap))
     = Inr (\<lparr>ro_grid_size = (2, 2), ro_dirt_positions = 0,
             ro_position = (0, 0), ro_cleaned_spots = 1\<rparr>, sconst 0,
            snd (new_list [] (snd (new_list [(0, 0)] empty_heap))))"
    by (simp add: Rumba_init_obj_def get_dirt_positions_obj_def randint_0 new_list_def
          empty_heap_def)
  have d: "cells (snd (new_list [(0, 0)] empty_heap))
             (co_dirt_positions \<lparr>co_grid_size = (2, 2), co_dirt_positions = 0\<rparr>) \<noteq> []"
    by (simp add: new_list_def empty_heap_def)
  from lists_are_shared [OF c r d, of "(1, 1)"
      "snd (new_list [] (snd (new_list [(0, 0)] empty_heap)))" "sconst 0"] c r d
  show ?thesis by simp
qed

end
